theory Spec2Isabelle
  imports Main "HOL-Library.List_Lexorder" "HOL-Library.Char_ord" "HOL-Library.Product_Lexorder"
begin

section \<open>Data model (db/schema.ts and the migrations)\<close>

text \<open>
  Every id column is a UUID that TypeScript sees as a \<open>string\<close>; ids are modelled as
  strings, ordered lexicographically, which on canonical UUID text is the byte order
  Postgres uses for \<open>uuid\<close>.

  Every time column is a \<open>TIMESTAMPTZ\<close>, which Postgres stores with microsecond
  resolution; it is modelled as the number of microseconds since the epoch, an integer. The select
  type of these columns is a JavaScript \<open>Date\<close>, which has millisecond resolution:
  \<open>js_date\<close> is the value a row's field has once it is read into the API process, and
  \<open>pg_timestamp\<close> is the value the database sees when a \<open>Date\<close> is sent back as a query
  parameter.

  JSONB columns (\<open>config\<close>, \<open>stats\<close>, \<open>data\<close>) are opaque to the API; they are
  modelled as flat objects, a list of key/value pairs.
\<close>

type_synonym uuid = string
type_synonym timestamptz = int
type_synonym date = int
type_synonym json = "(string \<times> string) list"

definition js_date :: "timestamptz \<Rightarrow> date" where
  "js_date us = us div 1000"

definition pg_timestamp :: "date \<Rightarrow> timestamptz" where
  "pg_timestamp ms = ms * 1000"

record tenant =
  tenant_id :: uuid
  tenant_name :: string
  tenant_api_key :: string
  tenant_is_enabled :: bool
  tenant_created_at :: timestamptz
  tenant_updated_at :: timestamptz

record dataset =
  ds_id :: uuid
  ds_owner_tenant_id :: "uuid option"
  ds_name :: string
  ds_entity_type :: string
  ds_tags :: "string list"
  ds_sources :: "string list"
  ds_schedule_cron :: "string option"
  ds_extractor :: string
  ds_config :: json
  ds_is_enabled :: bool
  ds_created_at :: timestamptz
  ds_updated_at :: timestamptz

datatype job_status = QUEUED | RUNNING | SUCCEEDED | FAILED | CANCELED

fun status_text :: "job_status \<Rightarrow> string" where
  "status_text QUEUED = ''QUEUED''"
| "status_text RUNNING = ''RUNNING''"
| "status_text SUCCEEDED = ''SUCCEEDED''"
| "status_text FAILED = ''FAILED''"
| "status_text CANCELED = ''CANCELED''"

record job =
  job_id :: uuid
  job_dataset_id :: uuid
  job_tenant_id :: uuid
  job_status :: job_status
  job_created_at :: timestamptz
  job_started_at :: "timestamptz option"
  job_finished_at :: "timestamptz option"
  job_progress :: int
  job_stats :: json
  job_error_message :: "string option"

record item =
  item_id :: uuid
  item_dataset_id :: uuid
  item_tenant_id :: "uuid option"
  item_entity_type :: string
  item_tags :: "string list"
  item_source :: string
  item_url :: string
  item_canonical_url :: "string option"
  item_hash :: string
  item_published_at :: "timestamptz option"
  item_observed_at :: timestamptz
  item_data :: json
  item_created_at :: timestamptz

record database =
  tenants :: "tenant list"
  datasets :: "dataset list"
  jobs :: "job list"
  items :: "item list"

text \<open>
  The exceptions the API raises: \<open>NotFoundException\<close>, \<open>ForbiddenException\<close> and
  \<open>UnauthorizedException\<close> are thrown by the source; \<open>InternalError\<close> stands for an
  exception nothing in the source catches (a \<open>TypeError\<close>, or a statement the database
  rejects). \<open>InvalidTransition\<close> belongs to the job state machine of the worker.
\<close>

datatype error = NotFound | Forbidden | Unauthorized | InternalError | InvalidTransition

section \<open>Access rule and DatasetsService\<close>

text \<open>
  The \<open>where\<close> clause every read path repeats:
  \<open>owner_tenant_id IS NULL OR owner_tenant_id = tenant.id\<close>.
\<close>

definition isVisible :: "dataset \<Rightarrow> tenant \<Rightarrow> bool" where
  "isVisible d t = (ds_owner_tenant_id d = None \<or> ds_owner_tenant_id d = Some (tenant_id t))"

text \<open>\<open>if (filters.x) query = query.where(...)\<close>: an absent or empty string adds no condition.\<close>

fun where_opt :: "string option \<Rightarrow> (string \<Rightarrow> 'a \<Rightarrow> bool) \<Rightarrow> 'a \<Rightarrow> bool" where
  "where_opt None p r = True"
| "where_opt (Some s) p r = (if s = [] then True else p s r)"

record dataset_filters =
  df_entityType :: "string option"
  df_tag :: "string option"
  df_source :: "string option"
  df_mine :: "bool option"

definition datasets_findAll :: "database \<Rightarrow> tenant \<Rightarrow> dataset_filters \<Rightarrow> dataset list" where
  "datasets_findAll db t f =
     rev (sort_key ds_created_at
       (filter (\<lambda>d. isVisible d t
           \<and> where_opt (df_entityType f) (\<lambda>s d. ds_entity_type d = s) d
           \<and> where_opt (df_tag f) (\<lambda>s d. s \<in> set (ds_tags d)) d
           \<and> where_opt (df_source f) (\<lambda>s d. s \<in> set (ds_sources d)) d
           \<and> (df_mine f = Some True \<longrightarrow> ds_owner_tenant_id d = Some (tenant_id t)))
         (datasets db)))"

definition datasets_findOne :: "database \<Rightarrow> uuid \<Rightarrow> tenant \<Rightarrow> error + dataset" where
  "datasets_findOne db i t =
     (case find (\<lambda>d. ds_id d = i \<and> isVisible d t) (datasets db) of
        None \<Rightarrow> Inl NotFound
      | Some d \<Rightarrow> Inr d)"




section \<open>ApiKeyGuard\<close>


section \<open>Keyset pagination shared by JobsService.findAll and ItemsService.findAll\<close>

text \<open>
  The two library functions of JavaScript's \<open>Date\<close> that the services call are parameters of
  the model: \<open>toISOString\<close> renders a \<open>Date\<close>, and \<open>newDate\<close> is
  \<open>new Date(s)\<close>, with \<open>None\<close> for an Invalid Date.
\<close>

record js_runtime =
  toISOString :: "date \<Rightarrow> string"
  newDate :: "string \<Rightarrow> date option"

record 'a page =
  rows :: "'a list"
  nextCursor :: "string option"

text \<open>\<open>s.split('|')\<close>: the pieces of \<open>s\<close> between the separators, never an empty array.\<close>

fun split_on :: "char \<Rightarrow> string \<Rightarrow> string list" where
  "split_on c [] = [[]]"
| "split_on c (x # xs) =
     (if x = c then [] # split_on c xs
      else (case split_on c xs of
              [] \<Rightarrow> [[x]]
            | w # ws \<Rightarrow> (x # w) # ws))"

text \<open>
  A \<open>Date\<close> built from a request string and bound as a query parameter. An Invalid Date
  has no timestamp text the database accepts, so the statement fails when it is executed.
\<close>

definition date_param :: "js_runtime \<Rightarrow> string \<Rightarrow> error + timestamptz" where
  "date_param rt s =
     (case newDate rt s of
        None \<Rightarrow> Inl InternalError
      | Some d \<Rightarrow> Inr (pg_timestamp d))"

text \<open>
  \<open>const [primary, id] = filters.cursor.split('|')\<close>: the first two pieces; \<open>id\<close> is
  \<open>undefined\<close> when the cursor has no separator, and is then bound as SQL \<open>NULL\<close>.
\<close>

definition decode_cursor :: "js_runtime \<Rightarrow> string \<Rightarrow> error + timestamptz \<times> uuid option" where
  "decode_cursor rt c =
     (case split_on CHR ''|'' c of
        [] \<Rightarrow> Inl InternalError
      | p # ps \<Rightarrow>
          (case date_param rt p of
             Inl e \<Rightarrow> Inl e
           | Inr d \<Rightarrow> Inr (d, case ps of [] \<Rightarrow> None | i # _ \<Rightarrow> Some i)))"

text \<open>\<open>if (filters.cursor) { ... }\<close>: an absent or empty cursor adds no condition.\<close>

definition cursor_of :: "js_runtime \<Rightarrow> string option \<Rightarrow> error + (timestamptz \<times> uuid option) option" where
  "cursor_of rt c =
     (case c of
        None \<Rightarrow> Inr None
      | Some s \<Rightarrow>
          (if s = [] then Inr None
           else (case decode_cursor rt s of Inl e \<Rightarrow> Inl e | Inr k \<Rightarrow> Inr (Some k))))"

text \<open>
  The cursor condition
  \<open>primary < c1 OR (primary = c1 AND id < c2)\<close>; a comparison with \<open>NULL\<close> is not true.
\<close>

definition after_cursor :: "timestamptz \<times> uuid option \<Rightarrow> timestamptz \<times> uuid \<Rightarrow> bool" where
  "after_cursor c k =
     (fst k < fst c \<or> (fst k = fst c \<and> (case snd c of None \<Rightarrow> False | Some i \<Rightarrow> snd k < i)))"

text \<open>\<open>orderBy(primary, 'desc').orderBy(id, 'desc')\<close>.\<close>

definition order_desc :: "('a \<Rightarrow> timestamptz \<times> uuid) \<Rightarrow> 'a list \<Rightarrow> 'a list" where
  "order_desc key q = rev (sort_key key q)"

text \<open>\<open>Math.min(filters.limit || 50, 100)\<close>: an absent limit and the limit 0 are both falsy.\<close>

definition effective_limit :: "int option \<Rightarrow> int" where
  "effective_limit l = min (case l of None \<Rightarrow> 50 | Some n \<Rightarrow> if n = 0 then 50 else n) 100"

text \<open>
  The cursor condition, the ordering and \<open>.limit(limit + 1)\<close>, then \<open>query.execute()\<close>.
  Postgres rejects a negative \<open>LIMIT\<close>.
\<close>

definition fetch_rows ::
  "('a \<Rightarrow> timestamptz \<times> uuid) \<Rightarrow> int \<Rightarrow> (timestamptz \<times> uuid option) option \<Rightarrow> 'a list \<Rightarrow> error + 'a list" where
  "fetch_rows key limit cur q =
     (if limit + 1 < 0 then Inl InternalError
      else Inr (take (nat (limit + 1))
             (order_desc key
                (case cur of None \<Rightarrow> q | Some c \<Rightarrow> filter (\<lambda>r. after_cursor c (key r)) q))))"

text \<open>
  The tail of both \<open>findAll\<close> methods:
  \<^verbatim>\<open>
    let nextCursor: string | undefined;
    if (rows.length > limit) {
      const last = rows[limit - 1];
      nextCursor = `${last.primary.toISOString()}|${last.id}`;
      rows.pop();
    }
    return { rows, nextCursor };
  \<close>
  \<open>rows[limit - 1]\<close> is \<open>undefined\<close> outside the array, and reading a field of it throws.
\<close>

definition cursor_text :: "js_runtime \<Rightarrow> timestamptz \<times> uuid \<Rightarrow> string" where
  "cursor_text rt k = toISOString rt (js_date (fst k)) @ ''|'' @ snd k"

definition next_page ::
  "js_runtime \<Rightarrow> ('a \<Rightarrow> timestamptz \<times> uuid) \<Rightarrow> int \<Rightarrow> 'a list \<Rightarrow> error + 'a page" where
  "next_page rt key limit rs =
     (if int (length rs) > limit then
        (if 0 \<le> limit - 1 \<and> limit - 1 < int (length rs) then
           Inr \<lparr>rows = butlast rs, nextCursor = Some (cursor_text rt (key (rs ! nat (limit - 1))))\<rparr>
         else Inl InternalError)
      else Inr \<lparr>rows = rs, nextCursor = None\<rparr>)"

text \<open>
  \<open>innerJoin('datasets', 'datasets.id', row.dataset_id)\<close> followed by the access rule on
  the joined dataset and \<open>selectAll\<close> of the left table.
\<close>

definition join_visible :: "('a \<Rightarrow> uuid) \<Rightarrow> 'a list \<Rightarrow> dataset list \<Rightarrow> tenant \<Rightarrow> 'a list" where
  "join_visible fk rs dss t =
     concat (map (\<lambda>r. map (\<lambda>d. r) (filter (\<lambda>d. ds_id d = fk r \<and> isVisible d t) dss)) rs)"

section \<open>JobsService\<close>

record job_filters =
  jf_datasetId :: "string option"
  jf_status :: "string option"
  jf_limit :: "int option"
  jf_cursor :: "string option"

definition job_key :: "job \<Rightarrow> timestamptz \<times> uuid" where
  "job_key j = (job_created_at j, job_id j)"



text \<open>
  \<open>JobsService.findOne\<close>: the job is looked up by id alone; the access check is a call of
  \<open>DatasetsService.findOne\<close> whose exception is caught and replaced.
\<close>

definition jobs_findOne :: "database \<Rightarrow> uuid \<Rightarrow> tenant \<Rightarrow> error + job" where
  "jobs_findOne db i t =
     (case find (\<lambda>j. job_id j = i) (jobs db) of
        None \<Rightarrow> Inl NotFound
      | Some j \<Rightarrow>
          (case datasets_findOne db (job_dataset_id j) t of
             Inl e \<Rightarrow> Inl Forbidden
           | Inr d \<Rightarrow> Inr j))"

text \<open>The rows of \<open>JobsService.findAll\<close> before the cursor condition, ordering and limit.\<close>

definition jobs_query :: "database \<Rightarrow> tenant \<Rightarrow> job_filters \<Rightarrow> job list" where
  "jobs_query db t f =
     filter (\<lambda>j. where_opt (jf_datasetId f) (\<lambda>s j. job_dataset_id j = s) j
              \<and> where_opt (jf_status f) (\<lambda>s j. status_text (job_status j) = s) j)
       (join_visible job_dataset_id (jobs db) (datasets db) t)"

text \<open>What \<open>await query.execute()\<close> returns in \<open>JobsService.findAll\<close>.\<close>

definition jobs_candidates :: "js_runtime \<Rightarrow> database \<Rightarrow> tenant \<Rightarrow> job_filters \<Rightarrow> error + job list" where
  "jobs_candidates rt db t f =
     (case cursor_of rt (jf_cursor f) of
        Inl e \<Rightarrow> Inl e
      | Inr cur \<Rightarrow> fetch_rows job_key (effective_limit (jf_limit f)) cur (jobs_query db t f))"

definition jobs_findAll :: "js_runtime \<Rightarrow> database \<Rightarrow> tenant \<Rightarrow> job_filters \<Rightarrow> error + job page" where
  "jobs_findAll rt db t f =
     (case jobs_candidates rt db t f of
        Inl e \<Rightarrow> Inl e
      | Inr rs \<Rightarrow> next_page rt job_key (effective_limit (jf_limit f)) rs)"

section \<open>ItemsService\<close>

record item_filters =
  if_datasetId :: "string option"
  if_entityType :: "string option"
  if_tag :: "string option"
  if_source :: "string option"
  if_since :: "string option"
  if_until :: "string option"
  if_limit :: "int option"
  if_cursor :: "string option"

definition item_key :: "item \<Rightarrow> timestamptz \<times> uuid" where
  "item_key i = (item_observed_at i, item_id i)"

definition items_findOne :: "database \<Rightarrow> uuid \<Rightarrow> tenant \<Rightarrow> error + item" where
  "items_findOne db i t =
     (case find (\<lambda>r. item_id r = i) (join_visible item_dataset_id (items db) (datasets db) t) of
        None \<Rightarrow> Inl NotFound
      | Some r \<Rightarrow> Inr r)"

text \<open>\<open>if (filters.since)\<close> and \<open>if (filters.until)\<close>: the bound of a date filter, if any.\<close>

definition date_bound :: "js_runtime \<Rightarrow> string option \<Rightarrow> error + timestamptz option" where
  "date_bound rt s =
     (case s of
        None \<Rightarrow> Inr None
      | Some x \<Rightarrow>
          (if x = [] then Inr None
           else (case date_param rt x of Inl e \<Rightarrow> Inl e | Inr d \<Rightarrow> Inr (Some d))))"

text \<open>The rows of \<open>ItemsService.findAll\<close> before the cursor condition, ordering and limit.\<close>

definition items_query :: "js_runtime \<Rightarrow> database \<Rightarrow> tenant \<Rightarrow> item_filters \<Rightarrow> error + item list" where
  "items_query rt db t f =
     (case date_bound rt (if_since f) of
        Inl e \<Rightarrow> Inl e
      | Inr since \<Rightarrow>
          (case date_bound rt (if_until f) of
             Inl e \<Rightarrow> Inl e
           | Inr until \<Rightarrow>
               Inr (filter (\<lambda>i. where_opt (if_datasetId f) (\<lambda>s i. item_dataset_id i = s) i
                          \<and> where_opt (if_entityType f) (\<lambda>s i. item_entity_type i = s) i
                          \<and> where_opt (if_tag f) (\<lambda>s i. s \<in> set (item_tags i)) i
                          \<and> where_opt (if_source f) (\<lambda>s i. item_source i = s) i
                          \<and> (case since of None \<Rightarrow> True | Some d \<Rightarrow> d \<le> item_observed_at i)
                          \<and> (case until of None \<Rightarrow> True | Some d \<Rightarrow> item_observed_at i \<le> d))
                     (join_visible item_dataset_id (items db) (datasets db) t))))"

definition items_candidates :: "js_runtime \<Rightarrow> database \<Rightarrow> tenant \<Rightarrow> item_filters \<Rightarrow> error + item list" where
  "items_candidates rt db t f =
     (case items_query rt db t f of
        Inl e \<Rightarrow> Inl e
      | Inr q \<Rightarrow>
          (case cursor_of rt (if_cursor f) of
             Inl e \<Rightarrow> Inl e
           | Inr cur \<Rightarrow> fetch_rows item_key (effective_limit (if_limit f)) cur q))"

definition items_findAll :: "js_runtime \<Rightarrow> database \<Rightarrow> tenant \<Rightarrow> item_filters \<Rightarrow> error + item page" where
  "items_findAll rt db t f =
     (case items_candidates rt db t f of
        Inl e \<Rightarrow> Inl e
      | Inr rs \<Rightarrow> next_page rt item_key (effective_limit (if_limit f)) rs)"

text \<open>
  The reference for a traversal: the same query with neither cursor condition nor limit,
  in the order of \<open>findAll\<close>.
\<close>

definition items_unpaged :: "js_runtime \<Rightarrow> database \<Rightarrow> tenant \<Rightarrow> item_filters \<Rightarrow> error + item list" where
  "items_unpaged rt db t f =
     (case items_query rt db t f of
        Inl e \<Rightarrow> Inl e
      | Inr q \<Rightarrow> Inr (order_desc item_key q))"

text \<open>
  A client that pages through the collection: it calls \<open>findAll\<close>, keeps the page, and
  calls again with the \<open>nextCursor\<close> it received until none comes back. The client loop
  is bounded by fuel; \<open>None\<close> means the fuel ran out before the traversal ended.
\<close>

fun paginate ::
  "js_runtime \<Rightarrow> database \<Rightarrow> tenant \<Rightarrow> item_filters \<Rightarrow> nat \<Rightarrow> (error + item list list) option" where
  "paginate rt db t f 0 = None"
| "paginate rt db t f (Suc fuel) =
     (case items_findAll rt db t f of
        Inl e \<Rightarrow> Some (Inl e)
      | Inr p \<Rightarrow>
          (case nextCursor p of
             None \<Rightarrow> Some (Inr [rows p])
           | Some c \<Rightarrow>
               (case paginate rt db t (f\<lparr>if_cursor := Some c\<rparr>) fuel of
                  None \<Rightarrow> None
                | Some (Inl e) \<Rightarrow> Some (Inl e)
                | Some (Inr ps) \<Rightarrow> Some (Inr (rows p # ps)))))"

definition ceil_div :: "nat \<Rightarrow> nat \<Rightarrow> nat" where
  "ceil_div a b = (a + b - 1) div b"

text \<open>
  What makes a cursor lossless for a row: the row's time is a whole number of milliseconds
  (so that the \<open>Date\<close> holds all of it), the runtime reads back the text it wrote, and
  neither the text nor the id contains the separator.
\<close>

definition lossless_cursor :: "js_runtime \<Rightarrow> timestamptz \<times> uuid \<Rightarrow> bool" where
  "lossless_cursor rt k =
     (fst k mod 1000 = 0
      \<and> newDate rt (toISOString rt (js_date (fst k))) = Some (js_date (fst k))
      \<and> CHR ''|'' \<notin> set (toISOString rt (js_date (fst k)))
      \<and> CHR ''|'' \<notin> set (snd k))"

text \<open>The pages a traversal with page size \<open>n\<close> cuts a list into; an empty list is one empty page.\<close>

function chunks :: "nat \<Rightarrow> 'a list \<Rightarrow> 'a list list" where
  "chunks n xs = (if n = 0 \<or> length xs \<le> n then [xs] else take n xs # chunks n (drop n xs))"
  by pat_completeness auto
termination
  by (relation "measure (\<lambda>(n, xs). length xs)") auto

section \<open>Job lifecycle of the worker\<close>


definition update_jobs :: "(job \<Rightarrow> bool) \<Rightarrow> (job \<Rightarrow> job) \<Rightarrow> database \<Rightarrow> database" where
  "update_jobs cond g db = db\<lparr>jobs := map (\<lambda>j. if cond j then g j else j) (jobs db)\<rparr>"


text \<open>
  Modelled from the spec: the candidate of \<open>claim\<close>, which is in the worker. ``Atomically
  select one QUEUED job (ordered oldest-\<open>created_at\<close>-first for fairness)''.
\<close>

definition oldest_queued :: "database \<Rightarrow> job option" where
  "oldest_queued db =
     (case sort_key job_created_at (filter (\<lambda>j. job_status j = QUEUED) (jobs db)) of
        [] \<Rightarrow> None
      | j # _ \<Rightarrow> Some j)"

text \<open>
  Modelled from the spec: the conditional update of \<open>claim\<close>, which is in the worker. ``The
  transition succeeds only if the row's status is still QUEUED at the moment of the
  update''; the result carries the number of rows affected.
\<close>

definition try_claim :: "uuid \<Rightarrow> timestamptz \<Rightarrow> database \<Rightarrow> nat \<times> database" where
  "try_claim i now db =
     (length (filter (\<lambda>j. job_id j = i \<and> job_status j = QUEUED) (jobs db)),
      update_jobs (\<lambda>j. job_id j = i \<and> job_status j = QUEUED)
        (\<lambda>j. j\<lparr>job_status := RUNNING, job_started_at := Some now\<rparr>) db)"










subsection \<open>Concurrent pollers\<close>

text \<open>
  Modelled from the spec: the pollers, which are worker processes. Each poller runs
  \<open>claim\<close> in two steps, either of which another poller's step may precede: it reads
  the oldest QUEUED job as its candidate, then issues the conditional update for that
  candidate; ``the other observes zero rows affected and must retry against a different
  candidate''. A step is atomic, as a single statement is in the job store.
\<close>

datatype poller = Polling | Candidate uuid | Claimed uuid | NoWork

definition poller_step :: "timestamptz \<Rightarrow> poller \<Rightarrow> database \<Rightarrow> poller \<times> database" where
  "poller_step now p db =
     (case p of
        Polling \<Rightarrow>
          (case oldest_queued db of
             None \<Rightarrow> (NoWork, db)
           | Some j \<Rightarrow> (Candidate (job_id j), db))
      | Candidate i \<Rightarrow>
          (case try_claim i now db of
             (n, db') \<Rightarrow> if n = 0 then (Polling, db') else (Claimed i, db'))
      | Claimed i \<Rightarrow> (Claimed i, db)
      | NoWork \<Rightarrow> (NoWork, db))"

text \<open>A schedule names, step by step, the poller that moves and the time of its move.\<close>

definition sys_step :: "poller list \<times> database \<Rightarrow> nat \<times> timestamptz \<Rightarrow> poller list \<times> database" where
  "sys_step st e =
     (if fst e < length (fst st) then
        (case poller_step (snd e) (fst st ! fst e) (snd st) of
           (p', db') \<Rightarrow> ((fst st)[fst e := p'], db'))
      else st)"

definition run :: "(nat \<times> timestamptz) list \<Rightarrow> poller list \<times> database \<Rightarrow> poller list \<times> database" where
  "run sched st = foldl sys_step st sched"

text \<open>No row of the job store with the given id is still QUEUED.\<close>

definition no_queued :: "uuid \<Rightarrow> database \<Rightarrow> bool" where
  "no_queued i db = (\<forall>j \<in> set (jobs db). job_id j = i \<longrightarrow> job_status j \<noteq> QUEUED)"

text \<open>
  What holds of pollers and store at every moment: a job some poller has claimed is no
  longer QUEUED, and no two pollers have claimed the same job.
\<close>

definition claims_consistent :: "poller list \<times> database \<Rightarrow> bool" where
  "claims_consistent st =
     ((\<forall>k < length (fst st). \<forall>i. fst st ! k = Claimed i \<longrightarrow> no_queued i (snd st))
      \<and> (\<forall>k < length (fst st). \<forall>k' < length (fst st). \<forall>i.
            fst st ! k = Claimed i \<and> fst st ! k' = Claimed i \<longrightarrow> k = k'))"

section \<open>Item ingestion of the worker\<close>

record raw_record =
  raw_url :: string
  raw_canonical_url :: "string option"
  raw_entity_type :: string
  raw_tags :: "string list"
  raw_source :: string
  raw_published_at :: "timestamptz option"
  raw_data :: json

datatype ingest_result = Created | Updated | Unchanged

text \<open>
  Modelled from the spec: \<open>ingest\<close>, which is in the worker. ``Lookup by the unique
  \<open>(dataset_id, url)\<close> key: no existing row \<open>\<rightarrow>\<close> insert, result = created; existing row with
  identical hash \<open>\<rightarrow>\<close> update only \<open>observed_at\<close>, result = unchanged; existing row with
  different hash \<open>\<rightarrow>\<close> update \<open>data\<close>, \<open>hash\<close>, \<open>published_at\<close>, \<open>observed_at\<close>, preserve
  \<open>created_at\<close> and identity, result = updated''. The content fingerprint is a parameter,
  as are the id and the time the store assigns.
\<close>

definition ingest ::
  "(json \<Rightarrow> string) \<Rightarrow> database \<Rightarrow> uuid \<Rightarrow> raw_record \<Rightarrow> timestamptz \<Rightarrow> uuid \<Rightarrow> ingest_result \<times> database" where
  "ingest fingerprint db datasetId r now new_id =
     (let same = (\<lambda>i. item_dataset_id i = datasetId \<and> item_url i = raw_url r);
          h = fingerprint (raw_data r)
      in case find same (items db) of
           None \<Rightarrow>
             (Created,
              db\<lparr>items := items db @
                   [\<lparr>item_id = new_id, item_dataset_id = datasetId, item_tenant_id = None,
                     item_entity_type = raw_entity_type r, item_tags = raw_tags r,
                     item_source = raw_source r, item_url = raw_url r,
                     item_canonical_url = raw_canonical_url r, item_hash = h,
                     item_published_at = raw_published_at r, item_observed_at = now,
                     item_data = raw_data r, item_created_at = now\<rparr>]\<rparr>)
         | Some existing \<Rightarrow>
             (if item_hash existing = h then
                (Unchanged,
                 db\<lparr>items := map (\<lambda>i. if same i then i\<lparr>item_observed_at := now\<rparr> else i) (items db)\<rparr>)
              else
                (Updated,
                 db\<lparr>items := map (\<lambda>i. if same i
                                       then i\<lparr>item_data := raw_data r, item_hash := h,
                                              item_published_at := raw_published_at r,
                                              item_observed_at := now\<rparr>
                                       else i) (items db)\<rparr>)))"

section \<open>A runtime and a database for the closed examples\<close>

text \<open>
  The text \<open>Date.prototype.toISOString\<close> produces for a time from 1970 to the year 9999,
  \<open>YYYY-MM-DDTHH:mm:ss.sssZ\<close>, and a \<open>new Date\<close> that reads exactly that text.
\<close>

primrec pad :: "nat \<Rightarrow> int \<Rightarrow> string" where
  "pad 0 n = []"
| "pad (Suc w) n = pad w (n div 10) @ [char_of (48 + n mod 10)]"

definition civil_from_days :: "int \<Rightarrow> int \<times> int \<times> int" where
  "civil_from_days days =
     (let z = days + 719468;
          era = z div 146097;
          doe = z mod 146097;
          yoe = (doe - doe div 1460 + doe div 36524 - doe div 146096) div 365;
          doy = doe - (365 * yoe + yoe div 4 - yoe div 100);
          mp = (5 * doy + 2) div 153;
          d = doy - (153 * mp + 2) div 5 + 1;
          m = (if mp < 10 then mp + 3 else mp - 9);
          y = yoe + era * 400 + (if m \<le> 2 then 1 else 0)
      in (y, m, d))"

definition days_from_civil :: "int \<Rightarrow> int \<Rightarrow> int \<Rightarrow> int" where
  "days_from_civil y m d =
     (let y' = (if m \<le> 2 then y - 1 else y);
          era = y' div 400;
          yoe = y' mod 400;
          doy = (153 * (if m > 2 then m - 3 else m + 9) + 2) div 5 + d - 1;
          doe = yoe * 365 + yoe div 4 - yoe div 100 + doy
      in era * 146097 + doe - 719468)"

definition iso_text :: "date \<Rightarrow> string" where
  "iso_text ms =
     (case civil_from_days (ms div 86400000) of
        (y, m, d) \<Rightarrow>
          pad 4 y @ ''-'' @ pad 2 m @ ''-'' @ pad 2 d @ ''T''
          @ pad 2 (ms div 3600000 mod 24) @ '':'' @ pad 2 (ms div 60000 mod 60) @ '':''
          @ pad 2 (ms div 1000 mod 60) @ ''.'' @ pad 3 (ms mod 1000) @ ''Z'')"

fun digits_value :: "string \<Rightarrow> int \<Rightarrow> int option" where
  "digits_value [] acc = Some acc"
| "digits_value (c # cs) acc =
     (if (48::int) \<le> of_char c \<and> (of_char c :: int) \<le> 57
      then digits_value cs (acc * 10 + (of_char c - 48))
      else None)"

definition iso_parse :: "string \<Rightarrow> date option" where
  "iso_parse s =
     (case (digits_value (take 4 s) 0, digits_value (take 2 (drop 5 s)) 0,
            digits_value (take 2 (drop 8 s)) 0, digits_value (take 2 (drop 11 s)) 0,
            digits_value (take 2 (drop 14 s)) 0, digits_value (take 2 (drop 17 s)) 0,
            digits_value (take 3 (drop 20 s)) 0) of
        (Some y, Some m, Some d, Some hh, Some mi, Some ss, Some f) \<Rightarrow>
          (let ms = (((days_from_civil y m d * 24 + hh) * 60 + mi) * 60 + ss) * 1000 + f
           in if iso_text ms = s then Some ms else None)
      | _ \<Rightarrow> None)"

definition iso_runtime :: js_runtime where
  "iso_runtime = \<lparr>toISOString = iso_text, newDate = iso_parse\<rparr>"

text \<open>
  Two tenants; a shared dataset, one dataset of each tenant, and a disabled dataset of
  the first tenant; jobs and items under them. \<open>t0\<close> is 2024-01-01T00:00:00Z in
  microseconds.
\<close>

definition t0 :: timestamptz where
  "t0 = 1704067200000000"

definition tenant_a :: tenant where
  "tenant_a = \<lparr>tenant_id = ''0a000000-0000-4000-8000-000000000001'', tenant_name = ''acme'',
                tenant_api_key = ''key-a'', tenant_is_enabled = True,
                tenant_created_at = t0, tenant_updated_at = t0\<rparr>"

definition tenant_b :: tenant where
  "tenant_b = \<lparr>tenant_id = ''0b000000-0000-4000-8000-000000000002'', tenant_name = ''globex'',
                tenant_api_key = ''key-b'', tenant_is_enabled = True,
                tenant_created_at = t0, tenant_updated_at = t0\<rparr>"

definition mk_dataset :: "uuid \<Rightarrow> uuid option \<Rightarrow> string \<Rightarrow> bool \<Rightarrow> dataset" where
  "mk_dataset i owner n enabled =
     \<lparr>ds_id = i, ds_owner_tenant_id = owner, ds_name = n, ds_entity_type = ''article.v1'',
      ds_tags = [''news/world'', ''en''], ds_sources = [''example.com''], ds_schedule_cron = None,
      ds_extractor = ''example_news_spider'', ds_config = [(''start_urls'', ''https://example.com/news'')],
      ds_is_enabled = enabled, ds_created_at = t0, ds_updated_at = t0\<rparr>"

definition ds_shared :: dataset where
  "ds_shared = mk_dataset ''d0000000-0000-4000-8000-000000000000'' None ''Example News'' True"

definition ds_a :: dataset where
  "ds_a = mk_dataset ''d0000000-0000-4000-8000-00000000000a'' (Some (tenant_id tenant_a)) ''Acme News'' True"

definition ds_b :: dataset where
  "ds_b = mk_dataset ''d0000000-0000-4000-8000-00000000000b'' (Some (tenant_id tenant_b)) ''Globex News'' True"

definition ds_off :: dataset where
  "ds_off = mk_dataset ''d0000000-0000-4000-8000-00000000000c'' (Some (tenant_id tenant_a)) ''Acme Paused'' False"

definition mk_job :: "uuid \<Rightarrow> dataset \<Rightarrow> tenant \<Rightarrow> job_status \<Rightarrow> timestamptz \<Rightarrow> job" where
  "mk_job i d t st created =
     \<lparr>job_id = i, job_dataset_id = ds_id d, job_tenant_id = tenant_id t, job_status = st,
      job_created_at = created,
      job_started_at = (if st = QUEUED then None else Some (created + 5000000)),
      job_finished_at = (if st \<in> {SUCCEEDED, FAILED, CANCELED} then Some (created + 60000000) else None),
      job_progress = (if st = SUCCEEDED then 100 else 0), job_stats = [(''mode'', ''full'')],
      job_error_message = None\<rparr>"

definition job_a1 :: job where
  "job_a1 = mk_job ''70000000-0000-4000-8000-0000000000a1'' ds_a tenant_a QUEUED (t0 + 1000000)"

definition job_a2 :: job where
  "job_a2 = mk_job ''70000000-0000-4000-8000-0000000000a2'' ds_a tenant_a SUCCEEDED (t0 + 2000000)"

definition job_b1 :: job where
  "job_b1 = mk_job ''70000000-0000-4000-8000-0000000000b1'' ds_b tenant_b RUNNING (t0 + 3000000)"

definition mk_item :: "uuid \<Rightarrow> dataset \<Rightarrow> string \<Rightarrow> timestamptz \<Rightarrow> item" where
  "mk_item i d u observed =
     \<lparr>item_id = i, item_dataset_id = ds_id d, item_tenant_id = None, item_entity_type = ''article.v1'',
      item_tags = [''news/world''], item_source = ''example.com'', item_url = u,
      item_canonical_url = None, item_hash = ''abc123'', item_published_at = None,
      item_observed_at = observed, item_data = [(''title'', ''Example Article'')],
      item_created_at = observed\<rparr>"

definition item_a1 :: item where
  "item_a1 = mk_item ''80000000-0000-4000-8000-0000000000a1'' ds_a ''https://example.com/article/1'' (t0 + 60000000)"

definition item_a2 :: item where
  "item_a2 = mk_item ''80000000-0000-4000-8000-0000000000a2'' ds_a ''https://example.com/article/2'' (t0 + 60000000)"

definition item_a3 :: item where
  "item_a3 = mk_item ''80000000-0000-4000-8000-0000000000a3'' ds_a ''https://example.com/article/3'' (t0 + 61000000)"

definition item_b1 :: item where
  "item_b1 = mk_item ''80000000-0000-4000-8000-0000000000b1'' ds_b ''https://example.com/article/1'' (t0 + 62000000)"

definition example_db :: database where
  "example_db = \<lparr>tenants = [tenant_a, tenant_b],
                  datasets = [ds_shared, ds_a, ds_b, ds_off],
                  jobs = [job_a1, job_a2, job_b1],
                  items = [item_a1, item_a2, item_a3, item_b1]\<rparr>"

definition no_dataset_filters :: dataset_filters where
  "no_dataset_filters = \<lparr>df_entityType = None, df_tag = None, df_source = None, df_mine = None\<rparr>"

definition no_job_filters :: job_filters where
  "no_job_filters = \<lparr>jf_datasetId = None, jf_status = None, jf_limit = None, jf_cursor = None\<rparr>"

definition no_item_filters :: item_filters where
  "no_item_filters = \<lparr>if_datasetId = None, if_entityType = None, if_tag = None, if_source = None,
                        if_since = None, if_until = None, if_limit = None, if_cursor = None\<rparr>"


text \<open>A record the extractor produced and a content fingerprint, for the ingestion example.\<close>

definition example_record :: raw_record where
  "example_record = \<lparr>raw_url = ''https://example.com/article/9'', raw_canonical_url = None,
                      raw_entity_type = ''article.v1'', raw_tags = [''news/world''],
                      raw_source = ''example.com'', raw_published_at = Some t0,
                      raw_data = [(''title'', ''Nine''), (''contentText'', ''Body'')]\<rparr>"

definition example_fingerprint :: "json \<Rightarrow> string" where
  "example_fingerprint d = concat (map (\<lambda>kv. fst kv @ ''='' @ snd kv @ '';'') d)"

text \<open>
  Two pollers racing for the one QUEUED job of the example: both read it as their
  candidate before either issues its update.
\<close>

definition race :: "(nat \<times> timestamptz) list" where
  "race = [(0, t0 + 80000000), (1, t0 + 80000001), (0, t0 + 80000002), (1, t0 + 80000003),
           (1, t0 + 80000004)]"

text \<open>The example database with 101 items in the dataset of tenant \<open>acme\<close>, a millisecond apart.\<close>

definition many_items :: "item list" where
  "many_items =
     map (\<lambda>n. mk_item (''80000000-0000-4000-8000-000000000'' @ pad 3 (int n)) ds_a
                 (''https://example.com/article/'' @ pad 3 (int n)) (t0 + 60000000 + int n * 1000))
       [0..<101]"

definition big_db :: database where
  "big_db = example_db\<lparr>items := many_items\<rparr>"

text \<open>
  The example database with two items observed in the same millisecond, at microseconds
  900 and 500 of it.
\<close>

definition micro_db :: database where
  "micro_db = example_db\<lparr>items :=
     [mk_item ''80000000-0000-4000-8000-0000000000b1'' ds_a ''https://example.com/article/1'' (t0 + 60000900),
      mk_item ''80000000-0000-4000-8000-0000000000b2'' ds_a ''https://example.com/article/2'' (t0 + 60000500)]\<rparr>"

section \<open>Visibility on the read paths\<close>

lemma datasets_findAll_visible: "d \<in> set (datasets_findAll db t f) \<Longrightarrow> isVisible d t"
  by (auto simp: datasets_findAll_def)

lemma datasets_findOne_Inr:
  "datasets_findOne db i t = Inr d \<Longrightarrow> d \<in> set (datasets db) \<and> ds_id d = i \<and> isVisible d t"
  by (auto simp: datasets_findOne_def find_Some_iff split: option.splits)

lemma set_join_visible:
  "set (join_visible fk rs dss t) = {r \<in> set rs. \<exists>d \<in> set dss. ds_id d = fk r \<and> isVisible d t}"
  by (auto simp: join_visible_def)

lemma set_order_desc: "set (order_desc key q) = set q"
  by (simp add: order_desc_def)

lemma fetch_rows_subset: "fetch_rows key l cur q = Inr rs \<Longrightarrow> set rs \<subseteq> set q"
  by (auto simp: fetch_rows_def set_order_desc split: if_splits option.splits dest!: in_set_takeD)

lemma next_page_subset: "next_page rt key l rs = Inr p \<Longrightarrow> set (rows p) \<subseteq> set rs"
  by (auto simp: next_page_def split: if_splits dest: in_set_butlastD)

lemma jobs_findAll_rows:
  assumes "jobs_findAll rt db t f = Inr p" and "j \<in> set (rows p)"
  shows "j \<in> set (jobs db) \<and> (\<exists>d \<in> set (datasets db). ds_id d = job_dataset_id j \<and> isVisible d t)"
proof -
  from assms(1) obtain rs where c: "jobs_candidates rt db t f = Inr rs"
    and n: "next_page rt job_key (effective_limit (jf_limit f)) rs = Inr p"
    by (auto simp: jobs_findAll_def split: sum.splits)
  from c obtain cur where "fetch_rows job_key (effective_limit (jf_limit f)) cur (jobs_query db t f) = Inr rs"
    by (auto simp: jobs_candidates_def split: sum.splits)
  then have "set rs \<subseteq> set (jobs_query db t f)" by (rule fetch_rows_subset)
  with next_page_subset[OF n] assms(2) have "j \<in> set (jobs_query db t f)" by blast
  then show ?thesis by (auto simp: jobs_query_def set_join_visible)
qed

lemma items_query_subset:
  "items_query rt db t f = Inr q \<Longrightarrow> set q \<subseteq> set (join_visible item_dataset_id (items db) (datasets db) t)"
  by (auto simp: items_query_def split: sum.splits)

lemma items_findAll_rows:
  assumes "items_findAll rt db t f = Inr p" and "i \<in> set (rows p)"
  shows "i \<in> set (items db) \<and> (\<exists>d \<in> set (datasets db). ds_id d = item_dataset_id i \<and> isVisible d t)"
proof -
  from assms(1) obtain rs where c: "items_candidates rt db t f = Inr rs"
    and n: "next_page rt item_key (effective_limit (if_limit f)) rs = Inr p"
    by (auto simp: items_findAll_def split: sum.splits)
  from c obtain cur q where q: "items_query rt db t f = Inr q"
    and "fetch_rows item_key (effective_limit (if_limit f)) cur q = Inr rs"
    by (auto simp: items_candidates_def split: sum.splits)
  then have "set rs \<subseteq> set q" by (auto dest: fetch_rows_subset)
  with next_page_subset[OF n] assms(2) items_query_subset[OF q]
  have "i \<in> set (join_visible item_dataset_id (items db) (datasets db) t)" by blast
  then show ?thesis by (auto simp: set_join_visible)
qed

lemma jobs_findOne_Inr:
  "jobs_findOne db i t = Inr j \<Longrightarrow>
     j \<in> set (jobs db) \<and> job_id j = i
     \<and> (\<exists>d \<in> set (datasets db). ds_id d = job_dataset_id j \<and> isVisible d t)"
  by (auto simp: jobs_findOne_def find_Some_iff split: option.splits sum.splits
      dest!: datasets_findOne_Inr)

lemma items_findOne_Inr:
  assumes "items_findOne db i t = Inr r"
  shows "r \<in> set (items db) \<and> item_id r = i
     \<and> (\<exists>d \<in> set (datasets db). ds_id d = item_dataset_id r \<and> isVisible d t)"
proof -
  from assms
  have "find (\<lambda>r. item_id r = i) (join_visible item_dataset_id (items db) (datasets db) t) = Some r"
    by (auto simp: items_findOne_def split: option.splits)
  then have "r \<in> set (join_visible item_dataset_id (items db) (datasets db) t) \<and> item_id r = i"
    by (auto simp: find_Some_iff)
  then show ?thesis by (auto simp: set_join_visible)
qed

lemma unique_parent:
  "distinct (map ds_id dss) \<Longrightarrow> d \<in> set dss \<Longrightarrow> d' \<in> set dss \<Longrightarrow> ds_id d = ds_id d' \<Longrightarrow> d = d'"
  by (meson distinct_map inj_onD)

text \<open>
  C1. With \<open>datasets.id\<close> a primary key, every read path returns a row only if its dataset
  is shared or owned by the calling tenant: a dataset that \<open>findAll\<close> or \<open>findOne\<close> of
  DatasetsService returns has \<open>owner_tenant_id\<close> null or equal to the tenant's id, and so has
  the dataset of every job and every item that \<open>findOne\<close> or \<open>findAll\<close> of JobsService and
  ItemsService return. So a dataset owned by another tenant, and any job or item belonging
  to it, is never returned.
\<close>

theorem read_paths_return_only_visible_rows:
  assumes pk: "distinct (map ds_id (datasets db))"
  shows "(\<forall>d \<in> set (datasets_findAll db T df).
            ds_owner_tenant_id d = None \<or> ds_owner_tenant_id d = Some (tenant_id T))
       \<and> (\<forall>d. datasets_findOne db i1 T = Inr d \<longrightarrow>
            ds_owner_tenant_id d = None \<or> ds_owner_tenant_id d = Some (tenant_id T))
       \<and> (\<forall>j D. jobs_findOne db i2 T = Inr j \<longrightarrow> D \<in> set (datasets db) \<longrightarrow> ds_id D = job_dataset_id j \<longrightarrow>
            ds_owner_tenant_id D = None \<or> ds_owner_tenant_id D = Some (tenant_id T))
       \<and> (\<forall>p j D. jobs_findAll rt db T jf = Inr p \<longrightarrow> j \<in> set (rows p) \<longrightarrow>
            D \<in> set (datasets db) \<longrightarrow> ds_id D = job_dataset_id j \<longrightarrow>
            ds_owner_tenant_id D = None \<or> ds_owner_tenant_id D = Some (tenant_id T))
       \<and> (\<forall>r D. items_findOne db i3 T = Inr r \<longrightarrow> D \<in> set (datasets db) \<longrightarrow> ds_id D = item_dataset_id r \<longrightarrow>
            ds_owner_tenant_id D = None \<or> ds_owner_tenant_id D = Some (tenant_id T))
       \<and> (\<forall>p r D. items_findAll rt db T itf = Inr p \<longrightarrow> r \<in> set (rows p) \<longrightarrow>
            D \<in> set (datasets db) \<longrightarrow> ds_id D = item_dataset_id r \<longrightarrow>
            ds_owner_tenant_id D = None \<or> ds_owner_tenant_id D = Some (tenant_id T))"
proof (intro conjI allI ballI impI)
  fix d assume "d \<in> set (datasets_findAll db T df)"
  then show "ds_owner_tenant_id d = None \<or> ds_owner_tenant_id d = Some (tenant_id T)"
    using datasets_findAll_visible by (simp add: isVisible_def)
next
  fix d assume "datasets_findOne db i1 T = Inr d"
  then show "ds_owner_tenant_id d = None \<or> ds_owner_tenant_id d = Some (tenant_id T)"
    using datasets_findOne_Inr by (simp add: isVisible_def)
next
  fix j D assume "jobs_findOne db i2 T = Inr j" and D: "D \<in> set (datasets db)" "ds_id D = job_dataset_id j"
  then obtain d where "d \<in> set (datasets db)" "ds_id d = job_dataset_id j" "isVisible d T"
    using jobs_findOne_Inr by blast
  with D pk have "d = D" by (auto intro: unique_parent)
  with \<open>isVisible d T\<close> show "ds_owner_tenant_id D = None \<or> ds_owner_tenant_id D = Some (tenant_id T)"
    by (simp add: isVisible_def)
next
  fix p j D assume "jobs_findAll rt db T jf = Inr p" "j \<in> set (rows p)"
    and D: "D \<in> set (datasets db)" "ds_id D = job_dataset_id j"
  then obtain d where "d \<in> set (datasets db)" "ds_id d = job_dataset_id j" "isVisible d T"
    using jobs_findAll_rows by blast
  with D pk have "d = D" by (auto intro: unique_parent)
  with \<open>isVisible d T\<close> show "ds_owner_tenant_id D = None \<or> ds_owner_tenant_id D = Some (tenant_id T)"
    by (simp add: isVisible_def)
next
  fix r D assume "items_findOne db i3 T = Inr r" and D: "D \<in> set (datasets db)" "ds_id D = item_dataset_id r"
  then obtain d where "d \<in> set (datasets db)" "ds_id d = item_dataset_id r" "isVisible d T"
    using items_findOne_Inr by blast
  with D pk have "d = D" by (auto intro: unique_parent)
  with \<open>isVisible d T\<close> show "ds_owner_tenant_id D = None \<or> ds_owner_tenant_id D = Some (tenant_id T)"
    by (simp add: isVisible_def)
next
  fix p r D assume "items_findAll rt db T itf = Inr p" "r \<in> set (rows p)"
    and D: "D \<in> set (datasets db)" "ds_id D = item_dataset_id r"
  then obtain d where "d \<in> set (datasets db)" "ds_id d = item_dataset_id r" "isVisible d T"
    using items_findAll_rows by blast
  with D pk have "d = D" by (auto intro: unique_parent)
  with \<open>isVisible d T\<close> show "ds_owner_tenant_id D = None \<or> ds_owner_tenant_id D = Some (tenant_id T)"
    by (simp add: isVisible_def)
qed

theorem read_paths_return_only_visible_rows_witness:
  "distinct (map ds_id (datasets example_db))
   \<and> ds_b \<in> set (datasets example_db)
   \<and> ds_owner_tenant_id ds_b \<noteq> None
   \<and> ds_owner_tenant_id ds_b \<noteq> Some (tenant_id tenant_a)
   \<and> ds_b \<notin> set (datasets_findAll example_db tenant_a no_dataset_filters)
   \<and> datasets_findOne example_db (ds_id ds_b) tenant_a \<noteq> Inr ds_b
   \<and> ds_id ds_b = job_dataset_id job_b1
   \<and> jobs_findOne example_db (job_id job_b1) tenant_a \<noteq> Inr job_b1
   \<and> ds_id ds_b = item_dataset_id item_b1
   \<and> items_findOne example_db (item_id item_b1) tenant_a \<noteq> Inr item_b1"
proof -
  have pk: "distinct (map ds_id (datasets example_db))" by code_simp
  have b: "ds_b \<in> set (datasets example_db)"
    "ds_owner_tenant_id ds_b \<noteq> None"
    "ds_owner_tenant_id ds_b \<noteq> Some (tenant_id tenant_a)"
    "ds_id ds_b = job_dataset_id job_b1"
    "ds_id ds_b = item_dataset_id item_b1"
    by code_simp+
  note C = read_paths_return_only_visible_rows[OF pk, where T = tenant_a and df = no_dataset_filters
      and ?i1.0 = "ds_id ds_b" and ?i2.0 = "job_id job_b1" and ?i3.0 = "item_id item_b1"
      and rt = iso_runtime and jf = no_job_filters and itf = no_item_filters]
  have 1: "ds_b \<notin> set (datasets_findAll example_db tenant_a no_dataset_filters)"
  proof
    assume a: "ds_b \<in> set (datasets_findAll example_db tenant_a no_dataset_filters)"
    from C[THEN conjunct1, rule_format, OF a] b(2,3) show False by simp
  qed
  have 2: "datasets_findOne example_db (ds_id ds_b) tenant_a \<noteq> Inr ds_b"
  proof
    assume a: "datasets_findOne example_db (ds_id ds_b) tenant_a = Inr ds_b"
    from C[THEN conjunct2, THEN conjunct1, rule_format, OF a] b(2,3) show False by simp
  qed
  have 3: "jobs_findOne example_db (job_id job_b1) tenant_a \<noteq> Inr job_b1"
  proof
    assume a: "jobs_findOne example_db (job_id job_b1) tenant_a = Inr job_b1"
    from C[THEN conjunct2, THEN conjunct2, THEN conjunct1, rule_format, OF a b(1) b(4)] b(2,3)
    show False by simp
  qed
  have 4: "items_findOne example_db (item_id item_b1) tenant_a \<noteq> Inr item_b1"
  proof
    assume a: "items_findOne example_db (item_id item_b1) tenant_a = Inr item_b1"
    from C[THEN conjunct2, THEN conjunct2, THEN conjunct2, THEN conjunct2, THEN conjunct1,
        rule_format, OF a b(1) b(5)] b(2,3)
    show False by simp
  qed
  from pk b 1 2 3 4 show ?thesis by simp
qed

section \<open>What a caller is told about an entity it may not see\<close>


lemma datasets_findOne_Inl: "datasets_findOne db i t = Inl e \<Longrightarrow> e = NotFound"
  by (auto simp: datasets_findOne_def split: option.splits)
















section \<open>Creating a job\<close>






section \<open>Updating a dataset\<close>









section \<open>Page size and cursor\<close>








lemma split_on_no_sep: "c \<notin> set b \<Longrightarrow> split_on c b = [b]"
  by (induction b) auto

lemma split_on_sep: "c \<notin> set a \<Longrightarrow> split_on c (a @ c # b) = a # split_on c b"
  by (induction a) auto

lemma decode_cursor_text:
  assumes "CHR ''|'' \<notin> set s1" and "CHR ''|'' \<notin> set s2" and "newDate rt s1 = Some d"
  shows "cursor_of rt (Some (s1 @ ''|'' @ s2)) = Inr (Some (pg_timestamp d, Some s2))"
  using assms by (simp add: cursor_of_def decode_cursor_def date_param_def split_on_sep split_on_no_sep)













section \<open>The job state machine\<close>

lemma update_jobs_related:
  assumes "\<And>j. cond j \<Longrightarrow> P j (g j)" and "\<And>j. P j j"
  shows "list_all2 P (jobs db) (jobs (update_jobs cond g db))"
  using assms by (simp add: update_jobs_def list_all2_map2 list_all2_same)



















section \<open>Ingesting a record twice\<close>

lemma find_append_fresh:
  "\<forall>x \<in> set xs. \<not> P x \<Longrightarrow> P y \<Longrightarrow> find P (xs @ [y]) = Some y"
  by (induction xs) auto

lemma map_fresh: "\<forall>x \<in> set xs. \<not> P x \<Longrightarrow> map (\<lambda>x. if P x then g x else x) xs = xs"
  by (induction xs) auto

lemma filter_fresh: "\<forall>x \<in> set xs. \<not> P x \<Longrightarrow> filter P xs = []"
  by (induction xs) auto

text \<open>
  C4. For a dataset and a record whose URL the dataset does not hold yet, and a clock that
  has advanced between the two calls (\<open>t1 < t2\<close>): the first \<open>ingest\<close> of the record is
  Created and adds one row \<open>it\<close>; the second is Unchanged and replaces \<open>it\<close> by the same row
  with \<open>observed_at = t2\<close>. After either call the rows of that \<open>(dataset_id, url)\<close> are
  exactly one; \<open>created_at\<close> (and the id) are those of the first call, and \<open>observed_at\<close> has
  moved from \<open>t1\<close> to \<open>t2\<close>.
\<close>

theorem ingest_same_record_twice:
  assumes fresh: "\<forall>i \<in> set (items db). \<not> (item_dataset_id i = ds \<and> item_url i = raw_url r)"
    and clock: "t1 < t2"
  shows "\<exists>it. ingest h db ds r t1 id1 = (Created, db\<lparr>items := items db @ [it]\<rparr>)
     \<and> ingest h (db\<lparr>items := items db @ [it]\<rparr>) ds r t2 id2
         = (Unchanged, db\<lparr>items := items db @ [it\<lparr>item_observed_at := t2\<rparr>]\<rparr>)
     \<and> filter (\<lambda>i. item_dataset_id i = ds \<and> item_url i = raw_url r) (items db @ [it]) = [it]
     \<and> filter (\<lambda>i. item_dataset_id i = ds \<and> item_url i = raw_url r)
          (items db @ [it\<lparr>item_observed_at := t2\<rparr>]) = [it\<lparr>item_observed_at := t2\<rparr>]
     \<and> item_id it = id1 \<and> item_created_at it = t1 \<and> item_observed_at it = t1
     \<and> item_id (it\<lparr>item_observed_at := t2\<rparr>) = item_id it
     \<and> item_created_at (it\<lparr>item_observed_at := t2\<rparr>) = item_created_at it
     \<and> item_observed_at it < item_observed_at (it\<lparr>item_observed_at := t2\<rparr>)"
proof -
  let ?same = "\<lambda>i. item_dataset_id i = ds \<and> item_url i = raw_url r"
  let ?it = "\<lparr>item_id = id1, item_dataset_id = ds, item_tenant_id = None,
              item_entity_type = raw_entity_type r, item_tags = raw_tags r,
              item_source = raw_source r, item_url = raw_url r,
              item_canonical_url = raw_canonical_url r, item_hash = h (raw_data r),
              item_published_at = raw_published_at r, item_observed_at = t1,
              item_data = raw_data r, item_created_at = t1\<rparr>"
  from fresh have none: "find ?same (items db) = None" by (simp add: find_None_iff)
  then have 1: "ingest h db ds r t1 id1 = (Created, db\<lparr>items := items db @ [?it]\<rparr>)"
    by (simp add: ingest_def)
  have same: "?same ?it" by simp
  from find_append_fresh[of "items db" ?same ?it, OF fresh same]
  have found: "find ?same (items db @ [?it]) = Some ?it" .
  have 2: "ingest h (db\<lparr>items := items db @ [?it]\<rparr>) ds r t2 id2
         = (Unchanged, db\<lparr>items := items db @ [?it\<lparr>item_observed_at := t2\<rparr>]\<rparr>)"
    using found map_fresh[of "items db" ?same, OF fresh] by (simp add: ingest_def)
  have 3: "filter ?same (items db @ [?it]) = [?it]"
    "filter ?same (items db @ [?it\<lparr>item_observed_at := t2\<rparr>]) = [?it\<lparr>item_observed_at := t2\<rparr>]"
    using filter_fresh[of "items db" ?same, OF fresh] by simp_all
  from 1 2 3 clock show ?thesis by (intro exI[of _ ?it]) simp
qed

theorem ingest_same_record_twice_witness:
  "\<not> (\<exists>i \<in> set (items example_db).
         item_dataset_id i = ds_id ds_a \<and> item_url i = raw_url example_record)
   \<and> t0 + 70000000 < t0 + 75000000
   \<and> fst (ingest example_fingerprint example_db (ds_id ds_a) example_record (t0 + 70000000)
            ''80000000-0000-4000-8000-0000000000a9'') = Created
   \<and> fst (ingest example_fingerprint
            (snd (ingest example_fingerprint example_db (ds_id ds_a) example_record (t0 + 70000000)
                    ''80000000-0000-4000-8000-0000000000a9''))
            (ds_id ds_a) example_record (t0 + 75000000) ''80000000-0000-4000-8000-0000000000aa'')
       = Unchanged"
proof -
  have n: "\<not> (\<exists>i \<in> set (items example_db).
         item_dataset_id i = ds_id ds_a \<and> item_url i = raw_url example_record)"
    by code_simp
  then have f: "\<forall>i \<in> set (items example_db).
       \<not> (item_dataset_id i = ds_id ds_a \<and> item_url i = raw_url example_record)"
    by blast
  have c: "t0 + 70000000 < t0 + 75000000" by simp
  from ingest_same_record_twice[OF f c, of example_fingerprint "''80000000-0000-4000-8000-0000000000a9''"
      "''80000000-0000-4000-8000-0000000000aa''"]
  obtain it where
    A: "ingest example_fingerprint example_db (ds_id ds_a) example_record (t0 + 70000000)
       ''80000000-0000-4000-8000-0000000000a9'' = (Created, example_db\<lparr>items := items example_db @ [it]\<rparr>)"
    and B: "ingest example_fingerprint (example_db\<lparr>items := items example_db @ [it]\<rparr>) (ds_id ds_a)
       example_record (t0 + 75000000) ''80000000-0000-4000-8000-0000000000aa''
     = (Unchanged, example_db\<lparr>items := items example_db @ [it\<lparr>item_observed_at := t0 + 75000000\<rparr>]\<rparr>)"
    by blast
  have 1: "fst (ingest example_fingerprint example_db (ds_id ds_a) example_record (t0 + 70000000)
            ''80000000-0000-4000-8000-0000000000a9'') = Created"
    by (simp only: A fst_conv)
  have 2: "fst (ingest example_fingerprint
            (snd (ingest example_fingerprint example_db (ds_id ds_a) example_record (t0 + 70000000)
                    ''80000000-0000-4000-8000-0000000000a9''))
            (ds_id ds_a) example_record (t0 + 75000000) ''80000000-0000-4000-8000-0000000000aa'')
       = Unchanged"
    by (simp only: A B fst_conv snd_conv)
  from n c 1 2 show ?thesis by (intro conjI)
qed

section \<open>Pollers racing for a job\<close>

lemma jobs_update_jobs:
  "jobs (update_jobs cond g db) = map (\<lambda>j. if cond j then g j else j) (jobs db)"
  by (simp add: update_jobs_def)

lemma try_claim_row:
  assumes "j \<in> set (jobs (snd (try_claim c now db)))"
  shows "\<exists>x \<in> set (jobs db). job_id j = job_id x
           \<and> (job_status x \<noteq> QUEUED \<longrightarrow> j = x)
           \<and> (job_id x = c \<longrightarrow> job_status j \<noteq> QUEUED)"
proof -
  from assms obtain x where x: "x \<in> set (jobs db)"
    and j: "j = (if job_id x = c \<and> job_status x = QUEUED
                 then x\<lparr>job_status := RUNNING, job_started_at := Some now\<rparr> else x)"
    unfolding try_claim_def snd_conv jobs_update_jobs by auto
  from j have "job_id j = job_id x" "job_status x \<noteq> QUEUED \<longrightarrow> j = x"
    "job_id x = c \<longrightarrow> job_status j \<noteq> QUEUED"
    by simp_all
  with x show ?thesis by blast
qed

lemma try_claim_clears: "no_queued i (snd (try_claim i now db))"
  unfolding no_queued_def
proof (intro ballI impI)
  fix j assume a: "j \<in> set (jobs (snd (try_claim i now db)))" and i: "job_id j = i"
  from try_claim_row[OF a] i show "job_status j \<noteq> QUEUED" by auto
qed

lemma try_claim_keeps:
  assumes "no_queued i db"
  shows "no_queued i (snd (try_claim c now db))"
  unfolding no_queued_def
proof (intro ballI impI)
  fix j assume a: "j \<in> set (jobs (snd (try_claim c now db)))" and i: "job_id j = i"
  from try_claim_row[OF a] obtain x where x: "x \<in> set (jobs db)" "job_id j = job_id x"
    "job_status x \<noteq> QUEUED \<longrightarrow> j = x"
    by blast
  with assms i have "job_status x \<noteq> QUEUED" by (simp add: no_queued_def)
  with x show "job_status j \<noteq> QUEUED" by simp
qed

lemma try_claim_zero: "no_queued i db \<Longrightarrow> fst (try_claim i now db) = 0"
  by (auto simp: no_queued_def try_claim_def filter_empty_conv)

lemma try_claim_won:
  assumes "fst (try_claim i now db) \<noteq> 0"
  shows "\<not> no_queued i db"
proof
  assume "no_queued i db"
  from try_claim_zero[OF this, of now] assms show False by simp
qed

lemma sys_step_length: "length (fst (sys_step st e)) = length (fst st)"
  by (auto simp: sys_step_def split: prod.splits)

lemma run_length: "length (fst (run sched st)) = length (fst st)"
  unfolding run_def by (induction sched arbitrary: st) (simp_all add: sys_step_length)

lemma poller_step_cases:
  assumes "poller_step now p db = (p', db')"
  shows "(db' = db \<and> (\<forall>i. p' = Claimed i \<longrightarrow> p = Claimed i))
       \<or> (\<exists>c. p = Candidate c \<and> db' = snd (try_claim c now db)
              \<and> ((fst (try_claim c now db) = 0 \<and> p' = Polling)
                 \<or> (fst (try_claim c now db) \<noteq> 0 \<and> p' = Claimed c)))"
  using assms
  by (cases p) (auto simp: poller_step_def split: option.splits prod.splits if_splits)

lemma sys_step_consistent:
  assumes inv: "claims_consistent st"
  shows "claims_consistent (sys_step st e)"
proof (cases "fst e < length (fst st)")
  case False
  with inv show ?thesis by (simp add: sys_step_def)
next
  case True
  obtain ps db where st: "st = (ps, db)" by (cases st)
  obtain k now where e: "e = (k, now)" by (cases e)
  obtain p' db' where ps: "poller_step now (ps ! k) db = (p', db')"
    by (cases "poller_step now (ps ! k) db")
  from True st e have k: "k < length ps" by simp
  from st e ps k have step: "sys_step st e = (ps[k := p'], db')" by (simp add: sys_step_def)
  from inv st have A: "\<And>m i. m < length ps \<Longrightarrow> ps ! m = Claimed i \<Longrightarrow> no_queued i db"
    and B: "\<And>m m' i. m < length ps \<Longrightarrow> m' < length ps \<Longrightarrow> ps ! m = Claimed i \<Longrightarrow>
              ps ! m' = Claimed i \<Longrightarrow> m = m'"
    by (auto simp: claims_consistent_def)
  from poller_step_cases[OF ps] consider
      (same) "db' = db" "\<And>i. p' = Claimed i \<Longrightarrow> ps ! k = Claimed i"
    | (lost) c where "ps ! k = Candidate c" "db' = snd (try_claim c now db)" "p' = Polling"
    | (won) c where "ps ! k = Candidate c" "db' = snd (try_claim c now db)"
        "fst (try_claim c now db) \<noteq> 0" "p' = Claimed c"
    by blast
  then have "claims_consistent (ps[k := p'], db')"
  proof cases
    case same
    have old: "ps ! m = Claimed i" if "m < length ps" "ps[k := p'] ! m = Claimed i" for m i
    proof (cases "m = k")
      case True
      with that k have "p' = Claimed i" by simp
      with same(2) True show ?thesis by simp
    next
      case False
      with that show ?thesis by simp
    qed
    show ?thesis
      unfolding claims_consistent_def fst_conv snd_conv length_list_update
    proof (intro conjI allI impI)
      fix m i assume "m < length ps" "ps[k := p'] ! m = Claimed i"
      then show "no_queued i db'" using old A same(1) by blast
    next
      fix m m' i assume "m < length ps" "m' < length ps"
        "ps[k := p'] ! m = Claimed i \<and> ps[k := p'] ! m' = Claimed i"
      then show "m = m'" using old B by blast
    qed
  next
    case lost
    have old: "ps ! m = Claimed i" if "m < length ps" "ps[k := p'] ! m = Claimed i" for m i
    proof (cases "m = k")
      case True
      with that k lost(3) show ?thesis by simp
    next
      case False
      with that show ?thesis by simp
    qed
    show ?thesis
      unfolding claims_consistent_def fst_conv snd_conv length_list_update
    proof (intro conjI allI impI)
      fix m i assume "m < length ps" "ps[k := p'] ! m = Claimed i"
      then have "no_queued i db" using old A by blast
      then show "no_queued i db'" unfolding lost(2) by (rule try_claim_keeps)
    next
      fix m m' i assume "m < length ps" "m' < length ps"
        "ps[k := p'] ! m = Claimed i \<and> ps[k := p'] ! m' = Claimed i"
      then show "m = m'" using old B by blast
    qed
  next
    case won
    from won(3) have q: "\<not> no_queued c db" by (rule try_claim_won)
    with A have free: "\<And>m. m < length ps \<Longrightarrow> ps ! m \<noteq> Claimed c" by blast
    have old: "(m = k \<and> i = c) \<or> (m \<noteq> k \<and> ps ! m = Claimed i)"
      if "m < length ps" "ps[k := p'] ! m = Claimed i" for m i
    proof (cases "m = k")
      case True
      with that k won(4) show ?thesis by simp
    next
      case False
      with that show ?thesis by simp
    qed
    show ?thesis
      unfolding claims_consistent_def fst_conv snd_conv length_list_update
    proof (intro conjI allI impI)
      fix m i assume m: "m < length ps" "ps[k := p'] ! m = Claimed i"
      from old[OF m] show "no_queued i db'"
      proof
        assume "m = k \<and> i = c"
        then show ?thesis unfolding won(2) by (simp add: try_claim_clears)
      next
        assume "m \<noteq> k \<and> ps ! m = Claimed i"
        with m A have "no_queued i db" by blast
        then show ?thesis unfolding won(2) by (rule try_claim_keeps)
      qed
    next
      fix m m' i assume m: "m < length ps" and m': "m' < length ps"
        and c: "ps[k := p'] ! m = Claimed i \<and> ps[k := p'] ! m' = Claimed i"
      from old[OF m] old[OF m'] c free[OF m] free[OF m'] B[OF m m']
      show "m = m'" by blast
    qed
  qed
  with step show ?thesis by simp
qed

lemma run_consistent: "claims_consistent st \<Longrightarrow> claims_consistent (run sched st)"
  unfolding run_def by (induction sched arbitrary: st) (simp_all add: sys_step_consistent)

lemma start_consistent: "claims_consistent (replicate n Polling, db)"
  by (simp add: claims_consistent_def)

lemma try_claim_rows:
  "list_all2 (\<lambda>j j'. j' = j \<or> (job_status j = QUEUED
                 \<and> (\<exists>t. j' = j\<lparr>job_status := RUNNING, job_started_at := Some t\<rparr>)))
     (jobs db) (jobs (snd (try_claim c now db)))"
  unfolding try_claim_def snd_conv by (rule update_jobs_related) auto

lemma sys_step_rows:
  "list_all2 (\<lambda>j j'. j' = j \<or> (job_status j = QUEUED
                 \<and> (\<exists>t. j' = j\<lparr>job_status := RUNNING, job_started_at := Some t\<rparr>)))
     (jobs (snd st)) (jobs (snd (sys_step st e)))"
proof (cases "fst e < length (fst st)")
  case False
  then show ?thesis by (simp add: sys_step_def list_all2_same)
next
  case True
  obtain p' db' where ps: "poller_step (snd e) (fst st ! fst e) (snd st) = (p', db')"
    by (cases "poller_step (snd e) (fst st ! fst e) (snd st)")
  with True have s: "snd (sys_step st e) = db'" by (simp add: sys_step_def)
  from poller_step_cases[OF ps] have "db' = snd st \<or> (\<exists>c. db' = snd (try_claim c (snd e) (snd st)))"
    by blast
  then show ?thesis unfolding s by (auto simp: list_all2_same try_claim_rows)
qed

lemma run_rows:
  "list_all2 (\<lambda>j j'. j' = j \<or> (job_status j = QUEUED
                 \<and> (\<exists>t. j' = j\<lparr>job_status := RUNNING, job_started_at := Some t\<rparr>)))
     (jobs (snd st)) (jobs (snd (run sched st)))"
proof (induction sched arbitrary: st)
  case Nil
  show ?case by (simp add: run_def list_all2_same)
next
  case (Cons e sched)
  let ?R = "\<lambda>j j'. j' = j \<or> (job_status j = QUEUED
                 \<and> (\<exists>t. j' = j\<lparr>job_status := RUNNING, job_started_at := Some t\<rparr>))"
  have A: "list_all2 ?R (jobs (snd st)) (jobs (snd (sys_step st e)))" by (rule sys_step_rows)
  have B: "list_all2 ?R (jobs (snd (sys_step st e))) (jobs (snd (run sched (sys_step st e))))"
    by (rule Cons.IH)
  have t: "\<And>a b c. ?R a b \<Longrightarrow> ?R b c \<Longrightarrow> ?R a c" by auto
  from list_all2_trans[of ?R ?R ?R, OF t A B] show ?case by (simp add: run_def)
qed

text \<open>
  C2. However the steps of \<open>n\<close> pollers that start polling are interleaved, at most one of
  them observes success for a job \<open>J\<close>: two pollers that have claimed \<open>J\<close> are the same
  poller. Once one has, \<open>J\<close> is no longer QUEUED, so the conditional update of any other
  claim on \<open>J\<close> affects zero rows, and that poller goes back to pick another candidate or
  finds no work. A row of the job store is changed by the claims only from QUEUED to
  RUNNING with \<open>started_at\<close> set.
\<close>

theorem no_two_claims_succeed:
  assumes "st = run sched (replicate n Polling, db)"
  shows "length (fst st) = n
     \<and> (\<forall>k < n. \<forall>k' < n. fst st ! k = Claimed J \<and> fst st ! k' = Claimed J \<longrightarrow> k = k')
     \<and> (\<forall>k < n. fst st ! k = Claimed J \<longrightarrow>
           (\<forall>j \<in> set (jobs (snd st)). job_id j = J \<longrightarrow> job_status j \<noteq> QUEUED)
           \<and> fst (try_claim J now (snd st)) = 0
           \<and> poller_step now (Candidate J) (snd st) = (Polling, snd (try_claim J now (snd st))))
     \<and> list_all2 (\<lambda>j j'. j' = j \<or> (job_status j = QUEUED
                 \<and> (\<exists>t. j' = j\<lparr>job_status := RUNNING, job_started_at := Some t\<rparr>)))
           (jobs db) (jobs (snd st))"
proof -
  have len: "length (fst st) = n" unfolding assms by (simp add: run_length)
  have inv: "claims_consistent st" unfolding assms by (intro run_consistent start_consistent)
  have one: "\<forall>k < n. \<forall>k' < n. fst st ! k = Claimed J \<and> fst st ! k' = Claimed J \<longrightarrow> k = k'"
    using inv len unfolding claims_consistent_def by blast
  have gone: "\<forall>k < n. fst st ! k = Claimed J \<longrightarrow>
           (\<forall>j \<in> set (jobs (snd st)). job_id j = J \<longrightarrow> job_status j \<noteq> QUEUED)
           \<and> fst (try_claim J now (snd st)) = 0
           \<and> poller_step now (Candidate J) (snd st) = (Polling, snd (try_claim J now (snd st)))"
  proof (intro allI impI)
    fix k assume "k < n" "fst st ! k = Claimed J"
    with inv len have nq: "no_queued J (snd st)" unfolding claims_consistent_def by blast
    then have z: "fst (try_claim J now (snd st)) = 0" by (rule try_claim_zero)
    then have "poller_step now (Candidate J) (snd st) = (Polling, snd (try_claim J now (snd st)))"
      by (cases "try_claim J now (snd st)") (simp add: poller_step_def)
    with nq z show "(\<forall>j \<in> set (jobs (snd st)). job_id j = J \<longrightarrow> job_status j \<noteq> QUEUED)
           \<and> fst (try_claim J now (snd st)) = 0
           \<and> poller_step now (Candidate J) (snd st) = (Polling, snd (try_claim J now (snd st)))"
      by (simp add: no_queued_def)
  qed
  have "list_all2 (\<lambda>j j'. j' = j \<or> (job_status j = QUEUED
                 \<and> (\<exists>t. j' = j\<lparr>job_status := RUNNING, job_started_at := Some t\<rparr>)))
           (jobs db) (jobs (snd st))"
    unfolding assms using run_rows[of "(replicate n Polling, db)" sched] by simp
  with len one gone show ?thesis by blast
qed

theorem no_two_claims_succeed_witness:
  "fst (run (take 2 race) (replicate 2 Polling, example_db))
     = [Candidate (job_id job_a1), Candidate (job_id job_a1)]
   \<and> fst (run race (replicate 2 Polling, example_db)) = [Claimed (job_id job_a1), NoWork]
   \<and> map job_status (jobs (snd (run race (replicate 2 Polling, example_db))))
     = [RUNNING, SUCCEEDED, RUNNING]
   \<and> map job_started_at (jobs (snd (run race (replicate 2 Polling, example_db))))
     = [Some (t0 + 80000002), Some (t0 + 7000000), Some (t0 + 8000000)]
   \<and> fst (try_claim (job_id job_a1) (t0 + 80000009) (snd (run race (replicate 2 Polling, example_db)))) = 0"
proof -
  let ?st = "run race (replicate 2 Polling, example_db)"
  have a: "fst (run (take 2 race) (replicate 2 Polling, example_db))
     = [Candidate (job_id job_a1), Candidate (job_id job_a1)]"
    by code_simp
  have b: "fst ?st = [Claimed (job_id job_a1), NoWork]" by code_simp
  have c: "map job_status (jobs (snd ?st)) = [RUNNING, SUCCEEDED, RUNNING]" by code_simp
  have d: "map job_started_at (jobs (snd ?st))
     = [Some (t0 + 80000002), Some (t0 + 7000000), Some (t0 + 8000000)]"
    by code_simp
  from b have k: "fst ?st ! 0 = Claimed (job_id job_a1)" by simp
  from no_two_claims_succeed[OF refl, of race 2 example_db "job_id job_a1" "t0 + 80000009",
      THEN conjunct2, THEN conjunct2, THEN conjunct1, rule_format, of 0] k
  have e: "fst (try_claim (job_id job_a1) (t0 + 80000009) (snd ?st)) = 0"
    by simp
  from a b c d e show ?thesis by simp
qed

section \<open>Paging through all items\<close>

subsection \<open>The ordered result and its suffixes\<close>

lemma order_desc_strict:
  assumes "distinct (map key q)"
  shows "sorted_wrt (\<lambda>a b. key b < key a) (order_desc key q)"
proof -
  have "distinct (map key (sort_key key q))"
    using assms by (metis distinct_map distinct_sort set_sort)
  moreover have "sorted (map key (sort_key key q))" by (rule sorted_sort_key)
  ultimately have "sorted_wrt (<) (map key (sort_key key q))" by (simp add: strict_sorted_iff)
  then have "sorted_wrt (\<lambda>a b. key a < key b) (sort_key key q)" by (simp add: sorted_wrt_map)
  then show ?thesis by (simp add: order_desc_def sorted_wrt_rev)
qed

lemma filter_order_desc: "filter P (order_desc key q) = order_desc key (filter P q)"
  by (simp add: order_desc_def filter_sort rev_filter[symmetric])

lemma length_order_desc: "length (order_desc key q) = length q"
  by (simp add: order_desc_def)

lemma distinct_order_desc: "distinct (order_desc key q) = distinct q"
  by (simp add: order_desc_def)

lemma rows_after:
  fixes key :: "'a \<Rightarrow> 'b::linorder"
  assumes "sorted_wrt (\<lambda>a b. key b < key a) xs" and "i < length xs"
  shows "filter (\<lambda>x. key x < key (xs ! i)) xs = drop (Suc i) xs"
  using assms
proof (induction xs arbitrary: i)
  case Nil
  then show ?case by simp
next
  case (Cons a xs)
  show ?case
  proof (cases i)
    case 0
    from Cons.prems have "\<forall>x \<in> set xs. key x < key a" by simp
    then have "filter (\<lambda>x. key x < key a) xs = xs" by (simp add: filter_id_conv)
    with 0 show ?thesis by simp
  next
    case (Suc m)
    with Cons.prems have m: "m < length xs" and s: "sorted_wrt (\<lambda>a b. key b < key a) xs" by simp_all
    from Cons.prems m have "key (xs ! m) < key a" by simp
    then have "\<not> key a < key (xs ! m)" by simp
    with Suc Cons.IH[OF s m] show ?thesis by simp
  qed
qed

lemma after_cursor_less:
  "after_cursor (fst k, Some (snd k)) k' = (k' < k)"
  by (cases k; cases k') (auto simp: after_cursor_def)

subsection \<open>The inner join with a primary key\<close>

lemma at_most_one_parent:
  "distinct (map f xs) \<Longrightarrow> length (filter (\<lambda>y. f y = a \<and> P y) xs) \<le> 1"
proof (induction xs)
  case Nil
  then show ?case by simp
next
  case (Cons x xs)
  show ?case
  proof (cases "f x = a")
    case True
    with Cons.prems have "\<forall>y \<in> set xs. f y \<noteq> a" by (auto simp: image_iff)
    then have "filter (\<lambda>y. f y = a \<and> P y) xs = []" by (simp add: filter_empty_conv)
    then show ?thesis by simp
  next
    case False
    with Cons show ?thesis by simp
  qed
qed

lemma join_visible_filter:
  assumes "distinct (map ds_id dss)"
  shows "join_visible fk rs dss t = filter (\<lambda>r. \<exists>d \<in> set dss. ds_id d = fk r \<and> isVisible d t) rs"
proof -
  have one: "map (\<lambda>d. r) (filter (\<lambda>d. ds_id d = fk r \<and> isVisible d t) dss)
        = (if \<exists>d \<in> set dss. ds_id d = fk r \<and> isVisible d t then [r] else [])" for r
  proof -
    let ?m = "filter (\<lambda>d. ds_id d = fk r \<and> isVisible d t) dss"
    from at_most_one_parent[OF assms, of "fk r" "\<lambda>d. isVisible d t"] have "length ?m \<le> 1" .
    then consider "?m = []" | d where "?m = [d]"
      by (cases ?m) (auto simp: length_Suc_conv)
    then show ?thesis
    proof cases
      case 1
      then show ?thesis by (auto simp: filter_empty_conv)
    next
      case 2
      then have "d \<in> set ?m" by simp
      then have "\<exists>d \<in> set dss. ds_id d = fk r \<and> isVisible d t" by auto
      with 2 show ?thesis by simp
    qed
  qed
  show ?thesis unfolding join_visible_def one by (induction rs) auto
qed

lemma items_query_distinct:
  assumes "distinct (map ds_id (datasets db))" and "distinct (map item_id (items db))"
    and "items_query rt db t f = Inr q"
  shows "distinct (map item_key q)" and "set q \<subseteq> set (items db)"
proof -
  from assms(3) obtain F where q: "q = filter F (join_visible item_dataset_id (items db) (datasets db) t)"
    by (auto simp: items_query_def split: sum.splits)
  then have q': "q = filter F (filter (\<lambda>r. \<exists>d \<in> set (datasets db). ds_id d = item_dataset_id r \<and> isVisible d t) (items db))"
    by (simp add: join_visible_filter[OF assms(1)])
  from assms(2) have "distinct (map item_id q)" unfolding q' by (simp add: distinct_map_filter)
  then have "distinct (map (snd \<circ> item_key) q)" by (simp add: item_key_def comp_def)
  then show "distinct (map item_key q)" by (metis distinct_map inj_on_imageI2 map_map distinct_conv_nth length_map nth_map)
  from q' show "set q \<subseteq> set (items db)" by auto
qed

subsection \<open>One call at a position of the traversal\<close>

lemma whole_ms: "(t::int) mod 1000 = 0 \<Longrightarrow> pg_timestamp (js_date t) = t"
  using div_mult_mod_eq[of t 1000] by (simp add: pg_timestamp_def js_date_def)

lemma cursor_roundtrip:
  assumes "lossless_cursor rt k"
  shows "cursor_of rt (Some (cursor_text rt k)) = Inr (Some (fst k, Some (snd k)))"
proof -
  from assms have m: "fst k mod 1000 = 0"
    and b: "CHR ''|'' \<notin> set (toISOString rt (js_date (fst k)))" "CHR ''|'' \<notin> set (snd k)"
      "newDate rt (toISOString rt (js_date (fst k))) = Some (js_date (fst k))"
    unfolding lossless_cursor_def by blast+
  from m have "pg_timestamp (js_date (fst k)) = fst k" by (rule whole_ms)
  with decode_cursor_text[OF b] show ?thesis unfolding cursor_text_def by simp
qed

lemma fetch_rows_start:
  "0 \<le> n \<Longrightarrow> fetch_rows key n None q = Inr (take (nat (n + 1)) (order_desc key q))"
  by (simp add: fetch_rows_def)

lemma fetch_rows_from:
  assumes "sorted_wrt (\<lambda>a b. key b < key a) (order_desc key q)" and "0 \<le> n"
    and "j < length (order_desc key q)"
  shows "fetch_rows key n (Some (fst (key (order_desc key q ! j)), Some (snd (key (order_desc key q ! j))))) q
         = Inr (take (nat (n + 1)) (drop (Suc j) (order_desc key q)))"
proof -
  let ?S = "order_desc key q"
  have "order_desc key (filter (\<lambda>r. key r < key (?S ! j)) q) = filter (\<lambda>r. key r < key (?S ! j)) ?S"
    by (simp add: filter_order_desc)
  also have "\<dots> = drop (Suc j) ?S" using assms(1,3) by (rule rows_after)
  finally show ?thesis using assms(2) by (simp add: fetch_rows_def after_cursor_less)
qed

lemma next_page_of_suffix:
  assumes "1 \<le> n"
  shows "next_page rt key n (take (nat (n + 1)) xs)
         = Inr (if length xs \<le> nat n then \<lparr>rows = xs, nextCursor = None\<rparr>
                else \<lparr>rows = take (nat n) xs,
                      nextCursor = Some (cursor_text rt (key (xs ! (nat n - 1))))\<rparr>)"
proof (cases "length xs \<le> nat n")
  case True
  then have "take (nat (n + 1)) xs = xs" using assms by simp
  with True assms show ?thesis by (simp add: next_page_def)
next
  case False
  with assms have len: "length (take (nat (n + 1)) xs) = nat n + 1" by (simp add: nat_add_distrib)
  then have "int (length (take (nat (n + 1)) xs)) = n + 1" using assms by simp
  moreover from len assms have "butlast (take (nat (n + 1)) xs) = take (nat n) xs"
    by (simp add: butlast_take nat_add_distrib)
  moreover from assms False have "take (nat (n + 1)) xs ! nat (n - 1) = xs ! (nat n - 1)"
    by (simp add: nat_diff_distrib)
  ultimately show ?thesis using assms False by (simp add: next_page_def)
qed

lemma items_query_cursor: "items_query rt db t (f\<lparr>if_cursor := c\<rparr>) = items_query rt db t f"
  by (simp add: items_query_def cong: sum.case_cong)

lemma items_findAll_at:
  assumes q: "items_query rt db t f = Inr q" and S: "S = order_desc item_key q"
    and st: "sorted_wrt (\<lambda>a b. item_key b < item_key a) S"
    and ll: "\<forall>r \<in> set S. lossless_cursor rt (item_key r)"
    and n: "1 \<le> effective_limit (if_limit f)"
    and pos: "(j = 0 \<and> c = None)
              \<or> (0 < j \<and> j \<le> length S \<and> c = Some (cursor_text rt (item_key (S ! (j - 1)))))"
  shows "items_findAll rt db t (f\<lparr>if_cursor := c\<rparr>)
         = Inr (if length (drop j S) \<le> nat (effective_limit (if_limit f))
                then \<lparr>rows = drop j S, nextCursor = None\<rparr>
                else \<lparr>rows = take (nat (effective_limit (if_limit f))) (drop j S),
                      nextCursor = Some (cursor_text rt
                        (item_key (S ! (j + nat (effective_limit (if_limit f)) - 1))))\<rparr>)"
proof -
  let ?n = "effective_limit (if_limit f)"
  have cands: "items_candidates rt db t (f\<lparr>if_cursor := c\<rparr>) = Inr (take (nat (?n + 1)) (drop j S))"
  proof (cases "j = 0")
    case True
    with pos have "c = None" by simp
    with True q n show ?thesis
      by (simp add: items_candidates_def items_query_cursor cursor_of_def fetch_rows_start S)
  next
    case False
    with pos have j: "0 < j" "j \<le> length S" and c: "c = Some (cursor_text rt (item_key (S ! (j - 1))))"
      by simp_all
    from j have m: "j - 1 < length S" by simp
    with ll have "lossless_cursor rt (item_key (S ! (j - 1)))" by simp
    from cursor_roundtrip[OF this]
    have cur: "cursor_of rt c = Inr (Some (fst (item_key (S ! (j - 1))), Some (snd (item_key (S ! (j - 1))))))"
      by (simp add: c)
    from n have "0 \<le> ?n" by simp
    from fetch_rows_from[OF st[unfolded S] this m[unfolded S]] j
    have "fetch_rows item_key ?n (Some (fst (item_key (S ! (j - 1))), Some (snd (item_key (S ! (j - 1)))))) q
          = Inr (take (nat (?n + 1)) (drop j S))"
      by (simp add: S)
    with q cur show ?thesis by (simp add: items_candidates_def items_query_cursor)
  qed
  have "drop j S ! (nat ?n - 1) = S ! (j + nat ?n - 1)" if "\<not> length (drop j S) \<le> nat ?n"
    using that n by (simp add: add.commute nat_diff_distrib)
  with cands next_page_of_suffix[OF n, of rt item_key "drop j S"] show ?thesis
    by (auto simp: items_findAll_def)
qed

subsection \<open>The pages of a traversal\<close>

declare chunks.simps [simp del]

lemma chunks_last: "length xs \<le> n \<Longrightarrow> chunks n xs = [xs]"
  by (subst chunks.simps) simp

lemma chunks_more: "0 < n \<Longrightarrow> n < length xs \<Longrightarrow> chunks n xs = take n xs # chunks n (drop n xs)"
  by (subst chunks.simps) simp

lemma concat_chunks: "concat (chunks n xs) = xs"
proof (induction n xs rule: chunks.induct)
  case (1 n xs)
  show ?case
  proof (cases "n = 0 \<or> length xs \<le> n")
    case True
    then show ?thesis by (subst chunks.simps) simp
  next
    case False
    with "1.IH" show ?thesis by (subst chunks.simps) simp
  qed
qed

lemma ceil_div_small: "0 < n \<Longrightarrow> 0 < m \<Longrightarrow> m \<le> n \<Longrightarrow> ceil_div m n = 1"
  unfolding ceil_div_def by (rule div_nat_eqI) simp_all

lemma ceil_div_step: "0 < n \<Longrightarrow> n < m \<Longrightarrow> ceil_div m n = Suc (ceil_div (m - n) n)"
proof -
  assume n: "0 < n" and m: "n < m"
  then have "m + n - 1 = (m - n + n - 1) + n" by simp
  then have "(m + n - 1) div n = (m - n + n - 1) div n + 1" using n by (metis div_add_self2 less_numeral_extra(3))
  then show ?thesis by (simp add: ceil_div_def)
qed

lemma ceil_div_pos: "0 < n \<Longrightarrow> 0 < m \<Longrightarrow> 0 < ceil_div m n"
  by (simp add: ceil_div_def div_greater_zero_iff)

lemma length_chunks:
  "0 < n \<Longrightarrow> length (chunks n xs) = max 1 (ceil_div (length xs) n)"
proof (induction n xs rule: chunks.induct)
  case (1 n xs)
  show ?case
  proof (cases "length xs \<le> n")
    case True
    show ?thesis
    proof (cases "xs = []")
      case True
      with "1.prems" show ?thesis by (simp add: chunks_last ceil_div_def)
    next
      case False
      with True "1.prems" show ?thesis by (simp add: chunks_last ceil_div_small)
    qed
  next
    case False
    then have gt: "n < length xs" by simp
    with "1.prems" have rest: "0 < length xs - n" by simp
    from "1.prems" gt have "length (chunks n (drop n xs)) = max 1 (ceil_div (length (drop n xs)) n)"
      by (intro "1.IH") auto
    with rest "1.prems" have "length (chunks n (drop n xs)) = ceil_div (length xs - n) n"
      using ceil_div_pos[of n "length xs - n"] by simp
    with "1.prems" gt show ?thesis by (simp add: chunks_more ceil_div_step)
  qed
qed

lemma chunks_sizes: "0 < n \<Longrightarrow> p \<in> set (chunks n xs) \<Longrightarrow> length p \<le> n"
proof (induction n xs rule: chunks.induct)
  case (1 n xs)
  show ?case
  proof (cases "length xs \<le> n")
    case True
    with "1.prems" show ?thesis by (simp add: chunks_last)
  next
    case False
    with "1.prems" "1.IH" show ?thesis by (auto simp: chunks_more)
  qed
qed

lemma paginate_from:
  assumes q: "items_query rt db t f = Inr q" and S: "S = order_desc item_key q"
    and st: "sorted_wrt (\<lambda>a b. item_key b < item_key a) S"
    and ll: "\<forall>r \<in> set S. lossless_cursor rt (item_key r)"
    and n: "1 \<le> effective_limit (if_limit f)"
  shows "(j = 0 \<and> c = None)
           \<or> (0 < j \<and> j \<le> length S \<and> c = Some (cursor_text rt (item_key (S ! (j - 1))))) \<Longrightarrow>
         length S - j < fuel \<Longrightarrow>
         paginate rt db t (f\<lparr>if_cursor := c\<rparr>) fuel
           = Some (Inr (chunks (nat (effective_limit (if_limit f))) (drop j S)))"
proof (induction fuel arbitrary: j c)
  case 0
  then show ?case by simp
next
  case (Suc fuel)
  let ?n = "nat (effective_limit (if_limit f))"
  from n have npos: "0 < ?n" by simp
  note page = items_findAll_at[OF q S st ll n Suc.prems(1)]
  show ?case
  proof (cases "length (drop j S) \<le> ?n")
    case True
    with page show ?thesis by (simp add: chunks_last)
  next
    case False
    then have more: "?n < length S - j" by simp
    from more npos have pos': "(j + ?n = 0 \<and> Some (cursor_text rt (item_key (S ! (j + ?n - 1)))) = None)
           \<or> (0 < j + ?n \<and> j + ?n \<le> length S
               \<and> Some (cursor_text rt (item_key (S ! (j + ?n - 1))))
                 = Some (cursor_text rt (item_key (S ! (j + ?n - 1)))))"
      by simp
    from more npos Suc.prems(2) have fuel': "length S - (j + ?n) < fuel" by simp
    from Suc.IH[OF pos' fuel']
    have "paginate rt db t (f\<lparr>if_cursor := Some (cursor_text rt (item_key (S ! (j + ?n - 1))))\<rparr>) fuel
           = Some (Inr (chunks ?n (drop (j + ?n) S)))" .
    moreover have "drop (j + ?n) S = drop ?n (drop j S)" by (simp add: add.commute)
    ultimately show ?thesis using page False npos by (simp add: chunks_more)
  qed
qed

subsection \<open>The traversal and the single fetch\<close>

text \<open>
  C5, as stated, fails for a page size above the maximum: with 101 items and \<open>k = 101\<close> the
  effective page size is 100, and the traversal takes two pages where
  \<open>ceil(101 / 101) = 1\<close>.
\<close>

theorem page_count_beyond_maximum:
  "map_sum id length (items_unpaged iso_runtime big_db tenant_a (no_item_filters\<lparr>if_limit := Some 101\<rparr>))
     = Inr 101
   \<and> map_option (map_sum id (map length))
        (paginate iso_runtime big_db tenant_a (no_item_filters\<lparr>if_limit := Some 101\<rparr>) 3)
     = Some (Inr [100, 1])
   \<and> ceil_div 101 101 = 1"
  by code_simp

text \<open>
  The cursor holds the \<open>Date\<close> of a row, and a \<open>Date\<close> drops the microseconds of
  \<open>observed_at\<close>. Of two items observed within one millisecond, a traversal with page
  size 1 returns the first and then an empty page: the second item satisfies neither
  \<open>observed_at < c1\<close> nor \<open>observed_at = c1\<close> for the truncated \<open>c1\<close>.
\<close>

lemma sub_millisecond_rows_are_skipped:
  "map_sum id (map item_id) (items_unpaged iso_runtime micro_db tenant_a (no_item_filters\<lparr>if_limit := Some 1\<rparr>))
     = Inr [''80000000-0000-4000-8000-0000000000b1'', ''80000000-0000-4000-8000-0000000000b2'']
   \<and> map_sum id (\<lambda>p. (map item_id (rows p), nextCursor p))
        (items_findAll iso_runtime micro_db tenant_a (no_item_filters\<lparr>if_limit := Some 1\<rparr>))
     = Inr ([''80000000-0000-4000-8000-0000000000b1''],
            Some ''2024-01-01T00:01:00.000Z|80000000-0000-4000-8000-0000000000b1'')
   \<and> map_option (map_sum id (map (map item_id)))
        (paginate iso_runtime micro_db tenant_a (no_item_filters\<lparr>if_limit := Some 1\<rparr>) 3)
     = Some (Inr [[''80000000-0000-4000-8000-0000000000b1''], []])"
  by code_simp

text \<open>
  C5, amended. Let item and dataset ids be primary keys and let every item have a lossless
  cursor (its \<open>observed_at\<close> is a whole number of milliseconds, the runtime reads back the
  date text it writes, and neither that text nor the id contains the separator). For every
  page size \<open>k \<ge> 1\<close>, with \<open>n = min k 100\<close> the effective page size: calling
  \<open>ItemsService.findAll\<close> without a cursor and then with each returned \<open>nextCursor\<close>, until
  none is returned, ends (any fuel above the number of rows suffices) and yields exactly the
  rows of the single unpaged fetch, in its order, cut into pages of \<open>n\<close> rows (the last may
  be shorter): \<open>ceil(count / n)\<close> pages, and one empty page when there is no row. No row is
  duplicated and none is omitted.
\<close>

theorem paging_yields_unpaged_fetch:
  assumes pk_ds: "distinct (map ds_id (datasets db))"
    and pk_items: "distinct (map item_id (items db))"
    and ll: "\<forall>i \<in> set (items db). lossless_cursor rt (item_key i)"
    and lim: "if_limit f = Some k" "1 \<le> k"
    and cur: "if_cursor f = None"
    and full: "items_unpaged rt db t f = Inr full"
    and fuel: "length full < fuel"
  shows "\<exists>pages. paginate rt db t f fuel = Some (Inr pages)
       \<and> pages = chunks (nat (min k 100)) full
       \<and> concat pages = full
       \<and> distinct full
       \<and> length pages = max 1 (ceil_div (length full) (nat (min k 100)))
       \<and> (\<forall>p \<in> set pages. length p \<le> nat (min k 100))"
proof -
  from full obtain q where q: "items_query rt db t f = Inr q" and S: "full = order_desc item_key q"
    by (auto simp: items_unpaged_def split: sum.splits)
  from items_query_distinct[OF pk_ds pk_items q]
  have dk: "distinct (map item_key q)" and sub: "set q \<subseteq> set (items db)" by simp_all
  from dk have st: "sorted_wrt (\<lambda>a b. item_key b < item_key a) full"
    unfolding S by (rule order_desc_strict)
  from sub ll have ll': "\<forall>r \<in> set full. lossless_cursor rt (item_key r)"
    unfolding S by (auto simp: set_order_desc)
  from lim have n: "effective_limit (if_limit f) = min k 100" by (simp add: effective_limit_def)
  with lim have n1: "1 \<le> effective_limit (if_limit f)" by simp
  from cur have f: "f\<lparr>if_cursor := None\<rparr> = f" by simp
  from fuel have fuel0: "length full - 0 < fuel" by simp
  have pos: "(0 = (0::nat) \<and> (None :: string option) = None)
           \<or> (0 < (0::nat) \<and> 0 \<le> length full
               \<and> None = Some (cursor_text rt (item_key (full ! (0 - 1)))))"
    by simp
  from paginate_from[OF q S st ll' n1 pos fuel0]
  have P: "paginate rt db t f fuel = Some (Inr (chunks (nat (min k 100)) full))"
    by (simp add: f n)
  from lim have npos: "0 < nat (min k 100)" by simp
  from dk have "distinct q" by (simp add: distinct_map)
  then have d: "distinct full" unfolding S by (simp add: distinct_order_desc)
  have sz: "\<forall>p \<in> set (chunks (nat (min k 100)) full). length p \<le> nat (min k 100)"
    using chunks_sizes[OF npos] by blast
  from P d npos sz show ?thesis by (simp add: concat_chunks length_chunks)
qed

theorem paging_yields_unpaged_fetch_witness:
  "distinct (map ds_id (datasets example_db))
   \<and> distinct (map item_id (items example_db))
   \<and> list_all (\<lambda>i. lossless_cursor iso_runtime (item_key i)) (items example_db)
   \<and> items_unpaged iso_runtime example_db tenant_a (no_item_filters\<lparr>if_limit := Some 2\<rparr>)
     = Inr [item_a3, item_a2, item_a1]
   \<and> paginate iso_runtime example_db tenant_a (no_item_filters\<lparr>if_limit := Some 2\<rparr>) 4
     = Some (Inr [[item_a3, item_a2], [item_a1]])
   \<and> ceil_div 3 2 = 2"
proof -
  let ?f = "no_item_filters\<lparr>if_limit := Some 2\<rparr>"
  have h1: "distinct (map ds_id (datasets example_db))" by code_simp
  have h2: "distinct (map item_id (items example_db))" by code_simp
  have h3: "list_all (\<lambda>i. lossless_cursor iso_runtime (item_key i)) (items example_db)" by code_simp
  then have h3': "\<forall>i \<in> set (items example_db). lossless_cursor iso_runtime (item_key i)"
    by (simp add: list_all_iff)
  have h4: "if_limit ?f = Some 2" "(1::int) \<le> 2" "if_cursor ?f = None" by code_simp+
  have h5: "items_unpaged iso_runtime example_db tenant_a ?f = Inr [item_a3, item_a2, item_a1]"
    by code_simp
  have h6: "length [item_a3, item_a2, item_a1] < 4" by simp
  have c: "chunks (nat (min 2 100)) [item_a3, item_a2, item_a1] = [[item_a3, item_a2], [item_a1]]"
    by code_simp
  have e: "ceil_div 3 2 = 2" by code_simp
  from paging_yields_unpaged_fetch[OF h1 h2 h3' h4 h5 h6] c
  have "paginate iso_runtime example_db tenant_a ?f 4 = Some (Inr [[item_a3, item_a2], [item_a1]])"
    by auto
  with h1 h2 h3 h5 e show ?thesis by (intro conjI)
qed

end
